theory Spec2Isabelle
  imports Main "HOL-Library.List_Lexorder" "HOL-Library.Char_ord"
begin

section \<open>Kache: a shallow embedding of the \<open>cache\<close> decorator\<close>

text \<open>
  The repository is one Python function, \<open>cache\<close> in \<open>src/kache/__init__.py\<close>, that wraps a
  function \<open>orig_func\<close> and returns the closure \<open>decorated\<close>. The closure owns two dictionaries
  (\<open>stats\<close>, \<open>info\<close>) and an in-memory dictionary \<open>mem_cache\<close>; when \<open>db\<close> is a path, each call
  opens a \<open>shelve\<close> database at that path instead, and closes it in a \<open>finally\<close> block.

  Mutation is explicit state passing, and every \<open>raise\<close> is a value \<open>Inl\<close> of a sum type.
  What the decorator calls but does not define (the wrapped function, the configured
  \<open>hash\<close>, \<open>inspect.signature(...).bind\<close>, \<open>pickle\<close> inside \<open>shelve\<close>, \<open>shelve.open\<close>, the
  \<open>repr\<close> of a parameter value) is a parameter of the model.
\<close>

subsection \<open>Data\<close>

text \<open>
  \<open>params = dict(bound.arguments)\<close>: a dictionary in insertion order, so an association
  list; a dictionary has one entry per name, which the theorems state as
  \<open>distinct (map fst params)\<close> where they need it.
\<close>

type_synonym 'v params = "(string \<times> 'v) list"

text \<open>
  An exception that leaves \<open>decorated\<close>. \<open>KeyError k\<close> is the one the model raises itself:
  the lookup \<open>_cache[hash_]\<close> on a key \<open>k\<close> the mapping does not hold. \<open>Raised x\<close> is an
  exception \<open>x\<close> raised by a collaborator (binding, \<open>hash\<close>, \<open>orig_func\<close>, \<open>pickle\<close>,
  \<open>shelve.open\<close>).
\<close>

datatype 'x exn = KeyError string | Raised 'x

text \<open>\<open>stats = dict(cached=0, computed=0)\<close>; Python integers are unbounded.\<close>

record stats =
  cached :: int
  computed :: int

text \<open>Calls on the \<open>shelve\<close> module that a recording backend would see.\<close>

datatype event = ShelveOpen string | ShelveClose string

text \<open>
  Everything a call can read or write: the closure's \<open>stats\<close>, \<open>info\<close> and \<open>mem_cache\<close>,
  the contents of the shelve databases by path (each a mapping from key to pickled
  bytes), and the trace of opens and closes.
\<close>

record ('v, 'b) world =
  stats :: stats
  info :: "string \<rightharpoonup> string"
  mem_cache :: "string \<rightharpoonup> 'v"
  disk :: "string \<Rightarrow> (string \<rightharpoonup> 'b)"
  trace :: "event list"

text \<open>
  The closure environment of \<open>decorated\<close>: the arguments of \<open>cache\<close> and the library
  functions it reaches. \<open>bind\<close> stands for lines 46 to 49 (\<open>inspect.signature(orig_func)\<close>,
  \<open>sig.bind(*args, **kwargs)\<close>, \<open>apply_defaults\<close>, \<open>dict(bound.arguments)\<close>) on a call's
  arguments \<open>'a\<close>; \<open>pickle_dumps\<close> and \<open>pickle_loads\<close> are what \<open>Shelf.__setitem__\<close> and
  \<open>Shelf.__getitem__\<close> apply to a value; \<open>shelve_open\<close> tells whether \<open>shelve.open(db)\<close>
  raises. \<open>hash\<close> is the callable after line 33; where it raises, or returns something
  that is not a string (so that the concatenation of line 51 raises), its value is
  \<open>Inl\<close>. The wrapped function is pure: it reads its parameters only, and calls run one
  after the other.
\<close>

record ('a, 'v, 'b, 'x) closure =
  func_name :: string
  orig_func :: "'v params \<Rightarrow> 'x + 'v"
  bind :: "'a \<Rightarrow> 'x + 'v params"
  db :: "string option"
  hash :: "'v params \<Rightarrow> 'x + string"
  pickle_dumps :: "'v \<Rightarrow> 'x + 'b"
  pickle_loads :: "'b \<Rightarrow> 'x + 'v"
  shelve_open :: "string \<Rightarrow> 'x option"

subsection \<open>The default hash: \<open>lambda params: str(sorted(params.items()))\<close>\<close>

text \<open>
  \<open>sorted\<close> compares the tuples \<open>(name, value)\<close>. A tuple comparison looks for the first
  position where the two tuples differ; the names of a dictionary are pairwise distinct,
  so that position is always the name and the values are never compared. Python's sort
  is stable, as is \<open>sort_key\<close>. Strings are compared by code point, lexicographically.
\<close>

definition sorted_items :: "'v params \<Rightarrow> 'v params" where
  "sorted_items params = sort_key fst params"

text \<open>\<open>repr\<close> of a parameter name: an identifier holds no quote and no escape.\<close>

definition repr_str :: "string \<Rightarrow> string" where
  "repr_str n = [CHR 0x27] @ n @ [CHR 0x27]"

text \<open>\<open>repr\<close> of a 2-tuple, given the \<open>repr\<close> of the value.\<close>

definition repr_tuple :: "('v \<Rightarrow> string) \<Rightarrow> string \<times> 'v \<Rightarrow> string" where
  "repr_tuple repr kv = ''('' @ repr_str (fst kv) @ '', '' @ repr (snd kv) @ '')''"

fun join :: "string \<Rightarrow> string list \<Rightarrow> string" where
  "join sep [] = []"
| "join sep [x] = x"
| "join sep (x # y # ys) = x @ sep @ join sep (y # ys)"

text \<open>\<open>str\<close> of a list, given the \<open>repr\<close> of its elements.\<close>

definition str_list :: "string list \<Rightarrow> string" where
  "str_list reprs = ''['' @ join '', '' reprs @ '']''"

definition default_hash :: "('v \<Rightarrow> string) \<Rightarrow> 'v params \<Rightarrow> 'x + string" where
  "default_hash repr params = Inr (str_list (map (repr_tuple repr) (sorted_items params)))"

subsection \<open>\<open>cache\<close>\<close>

text \<open>
  Lines 32 to 42 of \<open>cache\<close>: \<open>hash=None\<close> is replaced by \<open>lambda params: ""\<close>, and the
  closure starts with \<open>stats = dict(cached=0, computed=0)\<close>, \<open>info = dict()\<close>,
  \<open>mem_cache = dict()\<close>. \<open>cache\<close> builds the environment of \<open>decorated\<close>; \<open>init_world\<close> is
  the state of a freshly wrapped function on a given file system.
\<close>

definition cache_hash :: "('v params \<Rightarrow> 'x + string) option \<Rightarrow> 'v params \<Rightarrow> 'x + string" where
  "cache_hash hash_arg = (case hash_arg of None \<Rightarrow> (\<lambda>params. Inr '''') | Some h \<Rightarrow> h)"

definition init_world :: "(string \<Rightarrow> (string \<rightharpoonup> 'b)) \<Rightarrow> ('v, 'b) world" where
  "init_world fs =
     \<lparr>stats = \<lparr>cached = 0, computed = 0\<rparr>, info = Map.empty, mem_cache = Map.empty,
      disk = fs, trace = []\<rparr>"

definition cache ::
  "string \<Rightarrow> ('v params \<Rightarrow> 'x + 'v) \<Rightarrow> ('a \<Rightarrow> 'x + 'v params) \<Rightarrow> string option \<Rightarrow>
   ('v params \<Rightarrow> 'x + string) option \<Rightarrow> ('v \<Rightarrow> 'x + 'b) \<Rightarrow> ('b \<Rightarrow> 'x + 'v) \<Rightarrow>
   (string \<Rightarrow> 'x option) \<Rightarrow> ('a, 'v, 'b, 'x) closure" where
  "cache name f bnd db_arg hash_arg dumps loads opn =
     \<lparr>func_name = name, orig_func = f, bind = bnd, db = db_arg, hash = cache_hash hash_arg,
      pickle_dumps = dumps, pickle_loads = loads, shelve_open = opn\<rparr>"

subsection \<open>The backend object \<open>_cache\<close>\<close>

text \<open>
  \<open>_cache = shelve.open(db) if db is not None else mem_cache\<close>: either the closure's
  dictionary or a \<open>Shelf\<close> opened on a path.
\<close>

datatype cache_obj = MemCache | Shelf string

definition open_cache ::
  "('a, 'v, 'b, 'x) closure \<Rightarrow> ('v, 'b) world \<Rightarrow> ('x exn + cache_obj) \<times> ('v, 'b) world" where
  "open_cache c s =
     (case db c of
        None \<Rightarrow> (Inr MemCache, s)
      | Some path \<Rightarrow>
          (case shelve_open c path of
             Some e \<Rightarrow> (Inl (Raised e), s)
           | None \<Rightarrow> (Inr (Shelf path), s\<lparr>trace := trace s @ [ShelveOpen path]\<rparr>)))"

text \<open>\<open>hash_ in _cache\<close>\<close>

fun cache_contains :: "cache_obj \<Rightarrow> string \<Rightarrow> ('v, 'b) world \<Rightarrow> bool" where
  "cache_contains MemCache k s = (mem_cache s k \<noteq> None)"
| "cache_contains (Shelf path) k s = (disk s path k \<noteq> None)"

text \<open>
  \<open>_cache[hash_] = v\<close>: a dictionary stores the value; a \<open>Shelf\<close> pickles it first, and
  a value that cannot be pickled raises before anything is stored.
\<close>

fun cache_setitem ::
  "('a, 'v, 'b, 'x) closure \<Rightarrow> cache_obj \<Rightarrow> string \<Rightarrow> 'v \<Rightarrow> ('v, 'b) world \<Rightarrow>
   ('x exn + unit) \<times> ('v, 'b) world" where
  "cache_setitem c MemCache k v s = (Inr (), s\<lparr>mem_cache := (mem_cache s)(k \<mapsto> v)\<rparr>)"
| "cache_setitem c (Shelf path) k v s =
     (case pickle_dumps c v of
        Inl e \<Rightarrow> (Inl (Raised e), s)
      | Inr b \<Rightarrow> (Inr (), s\<lparr>disk := (disk s)(path := (disk s path)(k \<mapsto> b))\<rparr>))"

text \<open>\<open>_cache[hash_]\<close>: \<open>KeyError\<close> on a missing key; a \<open>Shelf\<close> unpickles what it holds.\<close>

fun cache_getitem ::
  "('a, 'v, 'b, 'x) closure \<Rightarrow> cache_obj \<Rightarrow> string \<Rightarrow> ('v, 'b) world \<Rightarrow> 'x exn + 'v" where
  "cache_getitem c MemCache k s =
     (case mem_cache s k of None \<Rightarrow> Inl (KeyError k) | Some v \<Rightarrow> Inr v)"
| "cache_getitem c (Shelf path) k s =
     (case disk s path k of
        None \<Rightarrow> Inl (KeyError k)
      | Some b \<Rightarrow> (case pickle_loads c b of Inl e \<Rightarrow> Inl (Raised e) | Inr v \<Rightarrow> Inr v))"

text \<open>
  The \<open>finally\<close> block: \<open>if hasattr(_cache, "close"): _cache.close()\<close>. A dictionary has
  no \<open>close\<close>; a \<open>Shelf\<close> has.
\<close>

fun finally_close :: "cache_obj \<Rightarrow> ('v, 'b) world \<Rightarrow> ('v, 'b) world" where
  "finally_close MemCache s = s"
| "finally_close (Shelf path) s = s\<lparr>trace := trace s @ [ShelveClose path]\<rparr>"

subsection \<open>\<open>decorated\<close>\<close>

text \<open>
  Line 51: \<open>hash_ = orig_func.__name__ + "__" + hash(params)\<close>. The variable \<open>hash_\<close> is
  written \<open>hash'\<close> below.
\<close>

definition cache_key :: "('a, 'v, 'b, 'x) closure \<Rightarrow> 'v params \<Rightarrow> 'x exn + string" where
  "cache_key c params =
     (case hash c params of
        Inl e \<Rightarrow> Inl (Raised e)
      | Inr h \<Rightarrow> Inr (func_name c @ ''__'' @ h))"

text \<open>
  Lines 56 to 60, the \<open>if\<close>/\<open>else\<close> inside \<open>try\<close>. On a miss the counter is incremented
  before \<open>orig_func\<close> runs, and the right-hand side of the assignment is evaluated before
  the store.
\<close>

definition hit_or_miss ::
  "('a, 'v, 'b, 'x) closure \<Rightarrow> cache_obj \<Rightarrow> string \<Rightarrow> 'v params \<Rightarrow> ('v, 'b) world \<Rightarrow>
   ('x exn + unit) \<times> ('v, 'b) world" where
  "hit_or_miss c obj hash' params s =
     (if cache_contains obj hash' s
      then (Inr (), s\<lparr>stats := (stats s)\<lparr>cached := cached (stats s) + 1\<rparr>\<rparr>)
      else
        (let s1 = s\<lparr>stats := (stats s)\<lparr>computed := computed (stats s) + 1\<rparr>\<rparr>
         in case orig_func c params of
              Inl e \<Rightarrow> (Inl (Raised e), s1)
            | Inr v \<Rightarrow> cache_setitem c obj hash' v s1))"

text \<open>Lines 56 to 62, the whole \<open>try\<close> body: then \<open>r = _cache[hash_]\<close>.\<close>

definition try_body ::
  "('a, 'v, 'b, 'x) closure \<Rightarrow> cache_obj \<Rightarrow> string \<Rightarrow> 'v params \<Rightarrow> ('v, 'b) world \<Rightarrow>
   ('x exn + 'v) \<times> ('v, 'b) world" where
  "try_body c obj hash' params s =
     (case hit_or_miss c obj hash' params s of
        (Inl e, s1) \<Rightarrow> (Inl e, s1)
      | (Inr u, s1) \<Rightarrow> (cache_getitem c obj hash' s1, s1))"

text \<open>
  Lines 45 to 66. An exception of \<open>bind\<close> or \<open>hash\<close> leaves before any assignment; one of
  \<open>shelve.open\<close> leaves after \<open>info["last_hash"]\<close> is set and before \<open>try\<close>; one inside
  \<open>try\<close> passes through \<open>finally\<close>.
\<close>

definition decorated ::
  "('a, 'v, 'b, 'x) closure \<Rightarrow> 'a \<Rightarrow> ('v, 'b) world \<Rightarrow> ('x exn + 'v) \<times> ('v, 'b) world" where
  "decorated c args s =
     (case bind c args of
        Inl e \<Rightarrow> (Inl (Raised e), s)
      | Inr params \<Rightarrow>
          (case cache_key c params of
             Inl e \<Rightarrow> (Inl e, s)
           | Inr hash' \<Rightarrow>
               (let s1 = s\<lparr>info := (info s)(''last_hash'' \<mapsto> hash')\<rparr>
                in case open_cache c s1 of
                     (Inl e, s2) \<Rightarrow> (Inl e, s2)
                   | (Inr obj, s2) \<Rightarrow>
                       (case try_body c obj hash' params s2 of
                          (r, s3) \<Rightarrow> (r, finally_close obj s3)))))"

text \<open>A sequence of calls on the same closure, each on the state the previous one left.\<close>

fun calls ::
  "('a, 'v, 'b, 'x) closure \<Rightarrow> 'a list \<Rightarrow> ('v, 'b) world \<Rightarrow>
   ('x exn + 'v) list \<times> ('v, 'b) world" where
  "calls c [] s = ([], s)"
| "calls c (a # as) s =
     (case decorated c a s of
        (r, s1) \<Rightarrow> (case calls c as s1 of (rs, s2) \<Rightarrow> (r # rs, s2)))"

subsection \<open>Vocabulary of the properties\<close>

text \<open>The object \<open>_cache\<close> that a call of the closure works on, once opened.\<close>

definition backend :: "('a, 'v, 'b, 'x) closure \<Rightarrow> cache_obj" where
  "backend c = (case db c of None \<Rightarrow> MemCache | Some path \<Rightarrow> Shelf path)"

text \<open>Line 54 does not raise.\<close>

definition opens :: "('a, 'v, 'b, 'x) closure \<Rightarrow> bool" where
  "opens c = (case db c of None \<Rightarrow> True | Some path \<Rightarrow> shelve_open c path = None)"

text \<open>
  The backend hands a value back as it was stored: always so for the dictionary; for a
  \<open>Shelf\<close>, when the value pickles and unpickles to itself.
\<close>

definition stores :: "('a, 'v, 'b, 'x) closure \<Rightarrow> 'v \<Rightarrow> bool" where
  "stores c v =
     (case db c of
        None \<Rightarrow> True
      | Some path \<Rightarrow>
          (case pickle_dumps c v of Inl e \<Rightarrow> False | Inr b \<Rightarrow> pickle_loads c b = Inr v))"

text \<open>The keys the backend holds.\<close>

fun cache_keys :: "cache_obj \<Rightarrow> ('v, 'b) world \<Rightarrow> string set" where
  "cache_keys MemCache s = dom (mem_cache s)"
| "cache_keys (Shelf path) s = dom (disk s path)"

text \<open>Exactly one of the two counters went up, by exactly one.\<close>

definition counted_once :: "stats \<Rightarrow> stats \<Rightarrow> bool" where
  "counted_once st st' =
     ((cached st' = cached st + 1 \<and> computed st' = computed st) \<or>
      (cached st' = cached st \<and> computed st' = computed st + 1))"

text \<open>
  Two parameter mappings hold the same \<open>(name, value)\<close> pairs, for a given equality of
  values (Python's \<open>==\<close>).
\<close>

definition same_items :: "('v \<Rightarrow> 'v \<Rightarrow> bool) \<Rightarrow> 'v params \<Rightarrow> 'v params \<Rightarrow> bool" where
  "same_items eq p1 p2 =
     (list_all (\<lambda>kv. list_ex (\<lambda>kv'. fst kv = fst kv' \<and> eq (snd kv) (snd kv')) p2) p1 \<and>
      list_all (\<lambda>kv'. list_ex (\<lambda>kv. fst kv = fst kv' \<and> eq (snd kv) (snd kv')) p1) p2)"

text \<open>The entries of a mapping as the default hash prints them: the name and the \<open>repr\<close> of the value.\<close>

definition printed_items :: "('v \<Rightarrow> string) \<Rightarrow> 'v params \<Rightarrow> (string \<times> string) list" where
  "printed_items repr params = map (\<lambda>kv. (fst kv, repr (snd kv))) params"

subsection \<open>Concrete closures\<close>

text \<open>
  The docstring's session, \<open>x = cache(lambda a, b=2: a*b)\<close>, and variations of it. The
  exceptions these examples raise:
\<close>

datatype pyexc = TypeError | ZeroDivisionError | DbmError

text \<open>\<open>repr\<close> of an integer: its decimal digits.\<close>

fun digits :: "nat \<Rightarrow> string" where
  "digits n =
     (if n < 10 then [char_of (48 + n)] else digits (n div 10) @ [char_of (48 + n mod 10)])"

declare digits.simps [simp del]

definition repr_int :: "int \<Rightarrow> string" where
  "repr_int i = (if i < 0 then CHR ''-'' # digits (nat (- i)) else digits (nat i))"

text \<open>
  \<open>Signature.bind\<close> followed by \<open>apply_defaults\<close>, for a signature of positional-or-keyword
  parameters \<open>(name, default)\<close> and a call \<open>(args, kwargs)\<close>: positional arguments fill the
  first parameters, the others are taken from the keywords or the defaults; too many
  positional arguments, a parameter given twice, a missing argument or an unknown keyword
  raise \<open>TypeError\<close>. The result is in the order of the signature.
\<close>

fun signature_bind ::
  "(string \<times> 'v option) list \<Rightarrow> 'v list \<times> (string \<times> 'v) list \<Rightarrow> pyexc + 'v params" where
  "signature_bind [] ([], kwargs) = (if kwargs = [] then Inr [] else Inl TypeError)"
| "signature_bind [] (a # args, kwargs) = Inl TypeError"
| "signature_bind ((n, d) # ps) (a # args, kwargs) =
     (if map_of kwargs n \<noteq> None then Inl TypeError
      else case signature_bind ps (args, kwargs) of
             Inl e \<Rightarrow> Inl e
           | Inr r \<Rightarrow> Inr ((n, a) # r))"
| "signature_bind ((n, d) # ps) ([], kwargs) =
     (case map_of kwargs n of
        Some v \<Rightarrow>
          (case signature_bind ps ([], filter (\<lambda>kv. fst kv \<noteq> n) kwargs) of
             Inl e \<Rightarrow> Inl e
           | Inr r \<Rightarrow> Inr ((n, v) # r))
      | None \<Rightarrow>
          (case d of
             None \<Rightarrow> Inl TypeError
           | Some v \<Rightarrow>
               (case signature_bind ps ([], kwargs) of
                  Inl e \<Rightarrow> Inl e
                | Inr r \<Rightarrow> Inr ((n, v) # r))))"

type_synonym call = "int list \<times> (string \<times> int) list"

text \<open>\<open>lambda a, b=2: a*b\<close>, called as \<open>orig_func(**params)\<close>.\<close>

definition x_func :: "int params \<Rightarrow> pyexc + int" where
  "x_func params =
     (case (map_of params ''a'', map_of params ''b'') of
        (Some a, Some b) \<Rightarrow> Inr (a * b)
      | _ \<Rightarrow> Inl TypeError)"

definition x_sig :: "(string \<times> int option) list" where
  "x_sig = [(''a'', None), (''b'', Some 2)]"

text \<open>A pickle that gives every integer back.\<close>

definition int_dumps :: "int \<Rightarrow> pyexc + int" where
  "int_dumps v = Inr v"

definition int_loads :: "int \<Rightarrow> pyexc + int" where
  "int_loads b = Inr b"

definition always_opens :: "string \<Rightarrow> pyexc option" where
  "always_opens path = None"

text \<open>\<open>x = cache(lambda a, b=2: a*b)\<close>\<close>

definition x_mem :: "(call, int, int, pyexc) closure" where
  "x_mem = cache ''<lambda>'' x_func (signature_bind x_sig) None (Some (default_hash repr_int))
         int_dumps int_loads always_opens"

text \<open>\<open>cache(lambda a, b=2: a*b, db="x.db")\<close>\<close>

definition x_shelf :: "(call, int, int, pyexc) closure" where
  "x_shelf = cache ''<lambda>'' x_func (signature_bind x_sig) (Some ''x.db'')
         (Some (default_hash repr_int)) int_dumps int_loads always_opens"

text \<open>\<open>cache(lambda a, b=2: a*b, hash=None)\<close>\<close>

definition x_const :: "(call, int, int, pyexc) closure" where
  "x_const = cache ''<lambda>'' x_func (signature_bind x_sig) None None
         int_dumps int_loads always_opens"

text \<open>
  \<open>cache(lambda a, b=2: a*b, hash=lambda params: params["a"])\<close>: the hash is an integer,
  so the concatenation of line 51 raises \<open>TypeError\<close>.
\<close>

definition x_badhash :: "(call, int, int, pyexc) closure" where
  "x_badhash = cache ''<lambda>'' x_func (signature_bind x_sig) None
         (Some (\<lambda>params. Inl TypeError)) int_dumps int_loads always_opens"

text \<open>
  \<open>cache(lambda a, b=2: a*b, db="/missing/x.db")\<close>, on a path where \<open>shelve.open\<close> raises.
\<close>

definition never_opens :: "string \<Rightarrow> pyexc option" where
  "never_opens path = Some DbmError"

definition x_noopen :: "(call, int, int, pyexc) closure" where
  "x_noopen = cache ''<lambda>'' x_func (signature_bind x_sig) (Some ''/missing/x.db'')
         (Some (default_hash repr_int)) int_dumps int_loads never_opens"

text \<open>The same function wrapped by a caller that passes the parameter mapping itself.\<close>

definition x_mapping :: "(int params, int, int, pyexc) closure" where
  "x_mapping = cache ''<lambda>'' x_func Inr None (Some (default_hash repr_int))
         int_dumps int_loads always_opens"

text \<open>\<open>cache(lambda a, b: a // b, db="d.db")\<close>, which raises when \<open>b\<close> is zero.\<close>

definition d_func :: "int params \<Rightarrow> pyexc + int" where
  "d_func params =
     (case (map_of params ''a'', map_of params ''b'') of
        (Some a, Some b) \<Rightarrow> (if b = 0 then Inl ZeroDivisionError else Inr (a div b))
      | _ \<Rightarrow> Inl TypeError)"

definition d_shelf :: "(call, int, int, pyexc) closure" where
  "d_shelf = cache ''d'' d_func (signature_bind [(''a'', None), (''b'', None)]) (Some ''d.db'')
         (Some (default_hash repr_int)) int_dumps int_loads always_opens"

text \<open>
  A value with a field that its pickle leaves out (a \<open>__getstate__\<close> that drops it): a pair
  of a payload and a scratch field, unpickled with the scratch field reset.
\<close>

definition payload_dumps :: "int \<times> int \<Rightarrow> pyexc + int" where
  "payload_dumps v = Inr (fst v)"

definition payload_loads :: "int \<Rightarrow> pyexc + int \<times> int" where
  "payload_loads b = Inr (b, 0)"

definition payload_func :: "(int \<times> int) params \<Rightarrow> pyexc + int \<times> int" where
  "payload_func params = Inr (7, 1)"

definition payload_shelf :: "((int \<times> int) params, int \<times> int, int, pyexc) closure" where
  "payload_shelf = cache ''payload'' payload_func Inr (Some ''s.db'') None
         payload_dumps payload_loads always_opens"

text \<open>
  Python values for closures whose arguments are not all integers: integers, booleans and
  a dictionary of keyword arguments with integer values. \<open>py_eq\<close> is \<open>==\<close> on them
  (\<open>True == 1\<close>; two dictionaries are equal when they have the same length and every key
  of the first maps to the same value in the second), \<open>repr_pyval\<close> is \<open>repr\<close> (a dictionary
  prints in insertion order).
\<close>

datatype pyval = PInt int | PBool bool | PDict "(string \<times> int) list"

fun py_eq :: "pyval \<Rightarrow> pyval \<Rightarrow> bool" where
  "py_eq (PInt i) (PInt j) = (i = j)"
| "py_eq (PBool b) (PBool c) = (b = c)"
| "py_eq (PInt i) (PBool b) = (i = (if b then 1 else 0))"
| "py_eq (PBool b) (PInt i) = (i = (if b then 1 else 0))"
| "py_eq (PDict xs) (PDict ys) =
     (length xs = length ys \<and> list_all (\<lambda>kv. map_of ys (fst kv) = Some (snd kv)) xs)"
| "py_eq v w = False"

fun repr_pyval :: "pyval \<Rightarrow> string" where
  "repr_pyval (PInt i) = repr_int i"
| "repr_pyval (PBool b) = (if b then ''True'' else ''False'')"
| "repr_pyval (PDict xs) =
     ''{'' @ join '', '' (map (\<lambda>kv. repr_str (fst kv) @ '': '' @ repr_int (snd kv)) xs) @ ''}''"

text \<open>\<open>lambda a, b=2: a*b\<close> on these values: a boolean multiplies as 0 or 1.\<close>

fun as_int :: "pyval \<Rightarrow> int option" where
  "as_int (PInt i) = Some i"
| "as_int (PBool b) = Some (if b then 1 else 0)"
| "as_int (PDict xs) = None"

definition xv_func :: "pyval params \<Rightarrow> pyexc + pyval" where
  "xv_func params =
     (case (map_of params ''a'', map_of params ''b'') of
        (Some a, Some b) \<Rightarrow>
          (case (as_int a, as_int b) of
             (Some i, Some j) \<Rightarrow> Inr (PInt (i * j))
           | _ \<Rightarrow> Inl TypeError)
      | _ \<Rightarrow> Inl TypeError)"

definition pv_dumps :: "pyval \<Rightarrow> pyexc + pyval" where
  "pv_dumps v = Inr v"

definition pv_loads :: "pyval \<Rightarrow> pyexc + pyval" where
  "pv_loads b = Inr b"

definition xv_mem ::
  "(pyval list \<times> (string \<times> pyval) list, pyval, pyval, pyexc) closure" where
  "xv_mem = cache ''<lambda>'' xv_func (signature_bind [(''a'', None), (''b'', Some (PInt 2))])
         None (Some (default_hash repr_pyval)) pv_dumps pv_loads always_opens"

text \<open>
  \<open>Signature.bind\<close> followed by \<open>apply_defaults\<close> for \<open>def g(**kw)\<close>: the keywords of the
  call, in the order of the call, become the dictionary bound to \<open>kw\<close>; a positional
  argument raises \<open>TypeError\<close>.
\<close>

fun bind_var_keyword :: "string \<Rightarrow> pyval list \<times> (string \<times> int) list \<Rightarrow> pyexc + pyval params" where
  "bind_var_keyword name ([], kwargs) = Inr [(name, PDict kwargs)]"
| "bind_var_keyword name (a # args, kwargs) = Inl TypeError"

text \<open>\<open>def g(**kw): return len(kw)\<close>, wrapped with the defaults.\<close>

definition g_func :: "pyval params \<Rightarrow> pyexc + pyval" where
  "g_func params =
     (case map_of params ''kw'' of
        Some (PDict xs) \<Rightarrow> Inr (PInt (int (length xs)))
      | _ \<Rightarrow> Inl TypeError)"

definition g_kw ::
  "(pyval list \<times> (string \<times> int) list, pyval, pyval, pyexc) closure" where
  "g_kw = cache ''g'' g_func (bind_var_keyword ''kw'') None (Some (default_hash repr_pyval))
         pv_dumps pv_loads always_opens"

text \<open>The key of \<open>a = 1, b = 2\<close> under the default hash.\<close>

definition key_1_2 :: string where
  "key_1_2 = ''<lambda>__[('a', 1), ('b', 2)]''"

text \<open>A freshly wrapped function on an empty file system.\<close>

definition fresh :: "('v, 'b) world" where
  "fresh = init_world (\<lambda>path. Map.empty)"

section \<open>Facts about a call\<close>

lemmas run_defs =
  Let_def decorated_def try_body_def hit_or_miss_def open_cache_def backend_def opens_def
  stores_def

subsection \<open>The docstring's session\<close>

lemma doctest_results:
  "fst (calls x_mem [([1], []), ([2], []), ([1], [])] fresh) = [Inr 2, Inr 4, Inr 2]"
  by code_simp

lemma doctest_stats:
  "stats (snd (calls x_mem [([1], [])] fresh)) = \<lparr>cached = 0, computed = 1\<rparr> \<and>
   stats (snd (calls x_mem [([1], []), ([2], [])] fresh)) = \<lparr>cached = 0, computed = 2\<rparr> \<and>
   stats (snd (calls x_mem [([1], []), ([2], []), ([1], [])] fresh)) = \<lparr>cached = 1, computed = 2\<rparr>"
  by code_simp

lemma doctest_last_hash:
  "info (snd (calls x_mem [([1], [])] fresh)) ''last_hash'' =
     Some ''<lambda>__[('a', 1), ('b', 2)]''"
  by code_simp

subsection \<open>Steps of a call\<close>

lemma sorted_items_unique:
  assumes "distinct (map fst p1)" and "distinct (map fst p2)" and "set p1 = set p2"
  shows "sorted_items p1 = sorted_items p2"
proof -
  let ?s1 = "sort_key fst p1" and ?s2 = "sort_key fst p2"
  have d1: "distinct (map fst ?s1)" and d2: "distinct (map fst ?s2)"
    using assms(1,2) by (simp_all add: distinct_map)
  have "set (map fst ?s1) = set (map fst ?s2)"
    using assms(3) by simp
  then have "map fst ?s1 = map fst ?s2"
    using d1 d2 by (intro sorted_distinct_set_unique) simp_all
  moreover have "inj_on fst (set ?s1 \<union> set ?s2)"
    using assms by (simp add: distinct_map)
  ultimately show ?thesis
    unfolding sorted_items_def by (simp add: inj_on_map_eq_map)
qed

lemma insort_key_map:
  assumes "\<And>y. f' (g y) = f y"
  shows "map g (insort_key f x xs) = insort_key f' (g x) (map g xs)"
  using assms by (induction xs) simp_all

lemma sort_key_map:
  assumes "\<And>y. f' (g y) = f y"
  shows "map g (sort_key f xs) = sort_key f' (map g xs)"
proof (induction xs)
  case Nil
  show ?case by simp
next
  case (Cons x xs)
  have "map g (sort_key f (x # xs)) = insort_key f' (g x) (map g (sort_key f xs))"
    by (simp add: insort_key_map [of f' g f, OF assms])
  then show ?case using Cons.IH by simp
qed

lemma default_hash_printed:
  "default_hash repr params =
     Inr (str_list (map (\<lambda>nr. ''('' @ repr_str (fst nr) @ '', '' @ snd nr @ '')'')
            (sorted_items (printed_items repr params))))"
proof -
  let ?q = "\<lambda>kv. (fst kv, repr (snd kv))"
  let ?fmt = "\<lambda>nr. ''('' @ repr_str (fst nr) @ '', '' @ snd nr @ '')''"
  have s: "sort_key fst (map ?q params) = map ?q (sort_key fst params)"
    by (rule sort_key_map [symmetric]) simp
  have "map (repr_tuple repr) (sort_key fst params) = map ?fmt (map ?q (sort_key fst params))"
    by (simp add: repr_tuple_def)
  then show ?thesis
    by (simp only: default_hash_def sorted_items_def printed_items_def s)
qed

lemma default_hash_same_printed:
  assumes "distinct (map fst p1)" and "distinct (map fst p2)"
    and "set (printed_items repr p1) = set (printed_items repr p2)"
  shows "default_hash repr p1 = (default_hash repr p2 :: 'x + string)"
proof -
  have d1: "distinct (map fst (printed_items repr p1))"
    using assms(1) by (simp add: printed_items_def comp_def)
  have d2: "distinct (map fst (printed_items repr p2))"
    using assms(2) by (simp add: printed_items_def comp_def)
  show ?thesis
    unfolding default_hash_printed
    using sorted_items_unique [OF d1 d2 assms(3)] by simp
qed

lemma open_cache_opens:
  assumes "opens c"
  shows "open_cache c s =
           (Inr (backend c),
            s\<lparr>trace := trace s @ (case db c of None \<Rightarrow> [] | Some path \<Rightarrow> [ShelveOpen path])\<rparr>)"
  using assms by (cases "db c") (simp_all add: open_cache_def opens_def backend_def)

lemma open_cache_fails:
  assumes "\<not> opens c"
  shows "\<exists>e. open_cache c s = (Inl e, s)"
  using assms by (cases "db c") (auto simp: open_cache_def opens_def)

lemma finally_close_fields [simp]:
  "stats (finally_close obj s) = stats s"
  "info (finally_close obj s) = info s"
  "mem_cache (finally_close obj s) = mem_cache s"
  "disk (finally_close obj s) = disk s"
  by (cases obj; simp)+

lemma try_body_effect:
  assumes "try_body c obj k p s = (r, s')"
  shows "counted_once (stats s) (stats s') \<and> info s' = info s \<and> trace s' = trace s \<and>
         (\<forall>k'. k' \<noteq> k \<longrightarrow>
            mem_cache s' k' = mem_cache s k' \<and> (\<forall>path. disk s' path k' = disk s path k'))"
  using assms
  by (cases obj)
    (auto simp: try_body_def hit_or_miss_def Let_def counted_once_def split: sum.splits if_splits)

lemma decorated_run:
  assumes "bind c args = Inr p" and "cache_key c p = Inr k" and "opens c"
  shows "decorated c args s =
           (case try_body c (backend c) k p
                   (s\<lparr>info := (info s)(''last_hash'' \<mapsto> k),
                      trace := trace s @
                        (case db c of None \<Rightarrow> [] | Some path \<Rightarrow> [ShelveOpen path])\<rparr>) of
              (r, s3) \<Rightarrow> (r, finally_close (backend c) s3))"
  using assms by (simp add: decorated_def open_cache_opens)

lemma hit_or_miss_contains:
  assumes "hit_or_miss c obj k p s = (Inr u, s1)"
  shows "cache_contains obj k s1"
  using assms
  by (cases obj) (auto simp: hit_or_miss_def Let_def split: sum.splits if_splits)

lemma contains_getitem:
  assumes "cache_contains obj k s"
  shows "cache_getitem c obj k s \<noteq> Inl (KeyError k')"
  using assms by (cases obj) (auto split: sum.splits)

lemma try_body_no_KeyError: "try_body c obj k p t \<noteq> (Inl (KeyError k'), t1)"
proof (cases "hit_or_miss c obj k p t")
  case (Pair r t2)
  show ?thesis
  proof (cases r)
    case (Inl e)
    then have "e \<noteq> KeyError k'"
      using Pair by (cases obj) (auto simp: hit_or_miss_def Let_def split: sum.splits if_splits)
    then show ?thesis using Pair Inl by (simp add: try_body_def)
  next
    case (Inr u)
    then show ?thesis
      using Pair hit_or_miss_contains [of c obj k p t u t2] contains_getitem [of obj k t2 c k']
      by (simp add: try_body_def)
  qed
qed

lemma fst_try_body_no_KeyError: "fst (try_body c obj k p t) \<noteq> Inl (KeyError k')"
  using try_body_no_KeyError [of c obj k p t k' "snd (try_body c obj k p t)"]
  by (cases "try_body c obj k p t") auto

lemma decorated_no_KeyError: "fst (decorated c args s) \<noteq> Inl (KeyError k')"
  by (auto simp: decorated_def cache_key_def open_cache_def Let_def fst_try_body_no_KeyError
      try_body_no_KeyError split: sum.splits option.splits prod.splits)

lemma decorated_reaches:
  assumes "bind c args = Inr p" and "cache_key c p = Inr k" and "opens c"
    and "decorated c args s = (r, s')"
  shows "counted_once (stats s) (stats s') \<and> info s' = (info s)(''last_hash'' \<mapsto> k) \<and>
         (\<forall>k'. k' \<noteq> k \<longrightarrow>
            mem_cache s' k' = mem_cache s k' \<and> (\<forall>path. disk s' path k' = disk s path k'))"
proof -
  let ?s2 = "s\<lparr>info := (info s)(''last_hash'' \<mapsto> k),
               trace := trace s @ (case db c of None \<Rightarrow> [] | Some path \<Rightarrow> [ShelveOpen path])\<rparr>"
  obtain r3 s3 where t: "try_body c (backend c) k p ?s2 = (r3, s3)"
    by (cases "try_body c (backend c) k p ?s2")
  have s': "s' = finally_close (backend c) s3"
    using assms(4) t by (simp add: decorated_run [OF assms(1-3)])
  show ?thesis
    using try_body_effect [OF t] by (simp add: s')
qed

lemma decorated_early_exit:
  assumes "\<not> (\<exists>p k. bind c args = Inr p \<and> cache_key c p = Inr k \<and> opens c)"
    and "decorated c args s = (r, s')"
  shows "stats s' = stats s \<and> mem_cache s' = mem_cache s \<and> disk s' = disk s \<and>
         trace s' = trace s \<and> (\<forall>n. n \<noteq> ''last_hash'' \<longrightarrow> info s' n = info s n)"
proof (cases "bind c args")
  case (Inl e)
  then show ?thesis using assms(2) by (simp add: decorated_def)
next
  case (Inr p)
  show ?thesis
  proof (cases "cache_key c p")
    case (Inl e)
    then show ?thesis using assms(2) Inr by (simp add: decorated_def)
  next
    case k: (Inr k)
    then have "\<not> opens c" using assms(1) Inr by blast
    then obtain e where "open_cache c (s\<lparr>info := (info s)(''last_hash'' \<mapsto> k)\<rparr>) =
        (Inl e, s\<lparr>info := (info s)(''last_hash'' \<mapsto> k)\<rparr>)"
      using open_cache_fails by blast
    then show ?thesis using assms(2) Inr k by (auto simp: decorated_def)
  qed
qed

lemma decorated_open_fails:
  assumes "bind c args = Inr p" and "cache_key c p = Inr k" and "\<not> opens c"
  shows "\<exists>e. decorated c args s = (Inl e, s\<lparr>info := (info s)(''last_hash'' \<mapsto> k)\<rparr>)"
proof -
  obtain e where "open_cache c (s\<lparr>info := (info s)(''last_hash'' \<mapsto> k)\<rparr>) =
      (Inl e, s\<lparr>info := (info s)(''last_hash'' \<mapsto> k)\<rparr>)"
    using open_cache_fails [OF assms(3)] by blast
  then show ?thesis using assms(1,2) by (simp add: decorated_def)
qed

lemma decorated_raises_early:
  assumes "(\<exists>e. bind c args = Inl e) \<or> (\<exists>p e. bind c args = Inr p \<and> cache_key c p = Inl e)"
  shows "snd (decorated c args s) = s"
  using assms by (auto simp: decorated_def)

lemma decorated_reaches_trace:
  assumes "bind c args = Inr p" and "cache_key c p = Inr k" and "opens c"
    and "decorated c args s = (r, s')"
  shows "trace s' = trace s @
           (case db c of None \<Rightarrow> [] | Some path \<Rightarrow> [ShelveOpen path, ShelveClose path])"
  using assms
  by (cases "db c") (auto simp: run_defs split: sum.splits option.splits if_splits)

lemma decorated_reaches_hit:
  assumes "bind c args = Inr p" and "cache_key c p = Inr k" and "opens c"
    and "decorated c args s = (r, s')" and "cache_contains (backend c) k s"
  shows "stats s' = (stats s)\<lparr>cached := cached (stats s) + 1\<rparr> \<and>
         mem_cache s' = mem_cache s \<and> disk s' = disk s"
  using assms
  by (cases "db c") (auto simp: run_defs split: sum.splits option.splits if_splits)

lemma decorated_reaches_miss:
  assumes "bind c args = Inr p" and "cache_key c p = Inr k" and "opens c"
    and "decorated c args s = (r, s')" and "\<not> cache_contains (backend c) k s"
  shows "stats s' = (stats s)\<lparr>computed := computed (stats s) + 1\<rparr> \<and>
         (case orig_func c p of
            Inl e \<Rightarrow> mem_cache s' = mem_cache s \<and> disk s' = disk s
          | Inr v \<Rightarrow>
              mem_cache s' = mem_cache (snd (cache_setitem c (backend c) k v s)) \<and>
              disk s' = disk (snd (cache_setitem c (backend c) k v s)))"
  using assms
  by (cases "db c") (auto simp: run_defs split: sum.splits option.splits if_splits)

lemma decorated_stats_mono:
  assumes "decorated c args s = (r, s')"
  shows "cached (stats s) \<le> cached (stats s') \<and> computed (stats s) \<le> computed (stats s')"
proof (cases "\<exists>p k. bind c args = Inr p \<and> cache_key c p = Inr k \<and> opens c")
  case True
  then obtain p k where "bind c args = Inr p" "cache_key c p = Inr k" "opens c" by blast
  from decorated_reaches [OF this assms] show ?thesis
    by (auto simp: counted_once_def)
next
  case False
  from decorated_early_exit [OF False assms] show ?thesis by simp
qed

lemma decorated_success:
  assumes "decorated c args s = (Inr r, s')"
  shows "\<exists>p k. bind c args = Inr p \<and> cache_key c p = Inr k \<and> opens c \<and>
           cache_getitem c (backend c) k s' = Inr r"
proof -
  from assms obtain p k where b: "bind c args = Inr p" and k: "cache_key c p = Inr k"
    by (auto simp: decorated_def split: sum.splits)
  have o: "opens c"
  proof (rule ccontr)
    assume "\<not> opens c"
    then obtain e where "open_cache c (s\<lparr>info := (info s)(''last_hash'' \<mapsto> k)\<rparr>) =
        (Inl e, s\<lparr>info := (info s)(''last_hash'' \<mapsto> k)\<rparr>)"
      using open_cache_fails by blast
    then show False using assms b k by (simp add: decorated_def)
  qed
  have g: "cache_getitem c (backend c) k s' = Inr r"
    using assms b k o
    by (cases "db c") (auto simp: run_defs split: sum.splits option.splits if_splits)
  from b k o g show ?thesis by blast
qed

lemma decorated_first_miss:
  assumes "decorated c args s = (Inr r, s')"
    and "bind c args = Inr p" and "cache_key c p = Inr k"
    and "\<not> cache_contains (backend c) k s"
  shows "\<exists>v. orig_func c p = Inr v \<and>
           fst (cache_setitem c (backend c) k v s) = Inr () \<and>
           cache_getitem c (backend c) k (snd (cache_setitem c (backend c) k v s)) = Inr r \<and>
           (stores c v \<longrightarrow> r = v) \<and>
           cache_keys (backend c) s' = insert k (cache_keys (backend c) s)"
proof -
  from assms obtain v where v: "orig_func c p = Inr v"
    by (cases "db c") (auto simp: run_defs split: sum.splits option.splits if_splits)
  have "fst (cache_setitem c (backend c) k v s) = Inr () \<and>
        cache_getitem c (backend c) k (snd (cache_setitem c (backend c) k v s)) = Inr r \<and>
        (stores c v \<longrightarrow> r = v) \<and>
        cache_keys (backend c) s' = insert k (cache_keys (backend c) s)"
    using assms v
    by (cases "db c") (auto simp: run_defs split: sum.splits option.splits if_splits)
  with v show ?thesis by blast
qed

lemma decorated_hit:
  assumes "bind c a = Inr p" and "cache_key c p = Inr k" and "opens c"
    and "cache_getitem c (backend c) k s = Inr v"
  shows "fst (decorated c a s) = Inr v \<and>
         cache_getitem c (backend c) k (snd (decorated c a s)) = Inr v \<and>
         cached (stats (snd (decorated c a s))) = cached (stats s) + 1 \<and>
         computed (stats (snd (decorated c a s))) = computed (stats s) \<and>
         mem_cache (snd (decorated c a s)) = mem_cache s \<and>
         disk (snd (decorated c a s)) = disk s"
  using assms
  by (cases "db c") (auto simp: run_defs split: sum.splits option.splits if_splits)

lemma calls_all_hits:
  assumes "\<forall>p. cache_key c p = Inr k" and "opens c"
    and "\<forall>a \<in> set as. \<exists>p. bind c a = Inr p"
    and "cache_getitem c (backend c) k s = Inr v"
  shows "fst (calls c as s) = replicate (length as) (Inr v) \<and>
         cached (stats (snd (calls c as s))) = cached (stats s) + int (length as) \<and>
         computed (stats (snd (calls c as s))) = computed (stats s) \<and>
         mem_cache (snd (calls c as s)) = mem_cache s \<and>
         disk (snd (calls c as s)) = disk s"
  using assms(3,4)
proof (induction as arbitrary: s)
  case Nil
  then show ?case by simp
next
  case (Cons a as)
  from Cons.prems(1) obtain p where p: "bind c a = Inr p" by auto
  from assms(1) have k: "cache_key c p = Inr k" by simp
  note h = decorated_hit [OF p k assms(2) Cons.prems(2)]
  have rest: "\<forall>a \<in> set as. \<exists>p. bind c a = Inr p"
    using Cons.prems(1) by simp
  note ih = Cons.IH [OF rest conjunct1 [OF conjunct2 [OF h]]]
  show ?case
    using h ih by (simp add: split_beta)
qed

section \<open>The properties of the specification\<close>

subsection \<open>C1: miss, then hit\<close>

text \<open>
  C1 has the first call return the result of the wrapped function, and a repeated call
  with an equal parameter set be a hit. Line 62 returns what the backend reads back: with
  a pickle that drops a field the function computes \<open>(7, 1)\<close> and the first call returns
  \<open>(7, 0)\<close>. And the key is the text of the parameters: \<open>1 == True\<close>, yet \<open>x(1)\<close> followed
  by \<open>x(True)\<close> is two misses.
\<close>

theorem miss_then_hit_counterexample:
  "bind payload_shelf [] = Inr [] \<and>
   cache_key payload_shelf [] = Inr ''payload__'' \<and>
   \<not> cache_contains (backend payload_shelf) ''payload__'' (fresh :: (int \<times> int, int) world) \<and>
   orig_func payload_shelf [] = Inr (7, 1) \<and>
   fst (decorated payload_shelf [] (fresh :: (int \<times> int, int) world)) = Inr (7, 0) \<and>
   fst (decorated payload_shelf [] (fresh :: (int \<times> int, int) world)) \<noteq> Inr (7, 1) \<and>
   bind xv_mem ([PInt 1], []) = Inr [(''a'', PInt 1), (''b'', PInt 2)] \<and>
   bind xv_mem ([PBool True], []) = Inr [(''a'', PBool True), (''b'', PInt 2)] \<and>
   same_items py_eq [(''a'', PInt 1), (''b'', PInt 2)] [(''a'', PBool True), (''b'', PInt 2)] \<and>
   stats (snd (decorated xv_mem ([PInt 1], []) (fresh :: (pyval, pyval) world))) =
     \<lparr>cached = 0, computed = 1\<rparr> \<and>
   stats (snd (decorated xv_mem ([PBool True], [])
     (snd (decorated xv_mem ([PInt 1], []) (fresh :: (pyval, pyval) world))))) =
     \<lparr>cached = 0, computed = 2\<rparr>"
  by code_simp

text \<open>
  C1, with the value read back and the key. A call whose derived key is new to the
  backend runs the wrapped function, stores its result \<open>v\<close> and returns \<open>w\<close>, the value
  the backend reads back at that key (\<open>v\<close> itself for the dictionary, and for a \<open>Shelf\<close>
  whose pickle gives \<open>v\<close> back), adding one to \<open>computed\<close> and nothing to \<open>cached\<close>; a call
  that follows immediately and derives the same key, as every call with the same
  parameter values does, returns \<open>w\<close> again and adds one to \<open>cached\<close> and nothing to
  \<open>computed\<close>.
\<close>

theorem miss_then_hit:
  assumes "bind c args1 = Inr p1" and "cache_key c p1 = Inr k"
    and "\<not> cache_contains (backend c) k s"
    and "opens c"
    and "orig_func c p1 = Inr v"
    and "cache_setitem c (backend c) k v s = (Inr (), t)"
    and "cache_getitem c (backend c) k t = Inr w"
    and "bind c args2 = Inr p2" and "cache_key c p2 = Inr k"
    and "decorated c args1 s = (r1, s1)"
    and "decorated c args2 s1 = (r2, s2)"
  shows "r1 = Inr w \<and> (stores c v \<longrightarrow> w = v) \<and>
         computed (stats s1) = computed (stats s) + 1 \<and> cached (stats s1) = cached (stats s) \<and>
         r2 = Inr w \<and>
         cached (stats s2) = cached (stats s1) + 1 \<and> computed (stats s2) = computed (stats s1)"
  using assms
  by (cases "db c") (auto simp: run_defs split: sum.splits option.splits if_splits)

theorem miss_then_hit_witness:
  "(fst (decorated payload_shelf [] fresh) = Inr (7, 0) \<and>
    computed (stats (snd (decorated payload_shelf [] fresh))) =
      computed (stats (fresh :: (int \<times> int, int) world)) + 1 \<and>
    cached (stats (snd (decorated payload_shelf [] fresh))) =
      cached (stats (fresh :: (int \<times> int, int) world)) \<and>
    fst (decorated payload_shelf [(''n'', (3, 4))] (snd (decorated payload_shelf [] fresh))) =
      Inr (7, 0) \<and>
    cached (stats (snd (decorated payload_shelf [(''n'', (3, 4))]
        (snd (decorated payload_shelf [] fresh))))) =
      cached (stats (snd (decorated payload_shelf [] fresh))) + 1 \<and>
    computed (stats (snd (decorated payload_shelf [(''n'', (3, 4))]
        (snd (decorated payload_shelf [] fresh))))) =
      computed (stats (snd (decorated payload_shelf [] fresh)))) \<and>
   (fst (decorated x_shelf ([1], []) fresh) = Inr 2 \<and>
    computed (stats (snd (decorated x_shelf ([1], []) fresh))) =
      computed (stats (fresh :: (int, int) world)) + 1 \<and>
    cached (stats (snd (decorated x_shelf ([1], []) fresh))) =
      cached (stats (fresh :: (int, int) world)) \<and>
    fst (decorated x_shelf ([], [(''a'', 1)]) (snd (decorated x_shelf ([1], []) fresh))) =
      Inr 2 \<and>
    cached (stats (snd (decorated x_shelf ([], [(''a'', 1)])
        (snd (decorated x_shelf ([1], []) fresh))))) =
      cached (stats (snd (decorated x_shelf ([1], []) fresh))) + 1 \<and>
    computed (stats (snd (decorated x_shelf ([], [(''a'', 1)])
        (snd (decorated x_shelf ([1], []) fresh))))) =
      computed (stats (snd (decorated x_shelf ([1], []) fresh)))) \<and>
   stores x_shelf 2"
proof -
  let ?w = "fresh :: (int \<times> int, int) world"
  let ?k = "''payload__''"
  have h1: "bind payload_shelf [] = Inr []" by code_simp
  have h2: "cache_key payload_shelf [] = Inr ?k" by code_simp
  have h3: "\<not> cache_contains (backend payload_shelf) ?k ?w" by code_simp
  have h4: "opens payload_shelf" by code_simp
  have h5: "orig_func payload_shelf [] = Inr (7, 1)" by code_simp
  have h6a: "fst (cache_setitem payload_shelf (backend payload_shelf) ?k (7, 1) ?w) = Inr ()"
    by code_simp
  have h6: "cache_setitem payload_shelf (backend payload_shelf) ?k (7, 1) ?w =
      (Inr (), snd (cache_setitem payload_shelf (backend payload_shelf) ?k (7, 1) ?w))"
    using h6a by (cases "cache_setitem payload_shelf (backend payload_shelf) ?k (7, 1) ?w") simp
  have h7: "cache_getitem payload_shelf (backend payload_shelf) ?k
      (snd (cache_setitem payload_shelf (backend payload_shelf) ?k (7, 1) ?w)) = Inr (7, 0)"
    by code_simp
  have h8: "bind payload_shelf [(''n'', (3, 4))] = Inr [(''n'', (3, 4))]" by code_simp
  have h9: "cache_key payload_shelf [(''n'', (3, 4))] = Inr ?k" by code_simp
  note lossy = miss_then_hit
    [OF h1 h2 h3 h4 h5 h6 h7 h8 h9 prod.collapse [symmetric] prod.collapse [symmetric]]
  let ?v = "fresh :: (int, int) world"
  let ?p = "[(''a'', 1), (''b'', 2)] :: int params"
  have g1: "bind x_shelf ([1], []) = Inr ?p" by code_simp
  have g2: "cache_key x_shelf ?p = Inr key_1_2" by code_simp
  have g3: "\<not> cache_contains (backend x_shelf) key_1_2 ?v" by code_simp
  have g4: "opens x_shelf" by code_simp
  have g5: "orig_func x_shelf ?p = Inr 2" by code_simp
  have g6a: "fst (cache_setitem x_shelf (backend x_shelf) key_1_2 2 ?v) = Inr ()"
    by code_simp
  have g6: "cache_setitem x_shelf (backend x_shelf) key_1_2 2 ?v =
      (Inr (), snd (cache_setitem x_shelf (backend x_shelf) key_1_2 2 ?v))"
    using g6a by (cases "cache_setitem x_shelf (backend x_shelf) key_1_2 2 ?v") simp
  have g7: "cache_getitem x_shelf (backend x_shelf) key_1_2
      (snd (cache_setitem x_shelf (backend x_shelf) key_1_2 2 ?v)) = Inr 2"
    by code_simp
  have g8: "bind x_shelf ([], [(''a'', 1)]) = Inr ?p" by code_simp
  have g9: "stores x_shelf 2" by code_simp
  note faithful = miss_then_hit
    [OF g1 g2 g3 g4 g5 g6 g7 g8 g2 prod.collapse [symmetric] prod.collapse [symmetric]]
  show ?thesis
    using lossy faithful g9 by simp
qed

subsection \<open>C2: the default key follows the text of the parameters\<close>

text \<open>
  C2 has two calls with equal parameter mappings derive the same key under the default
  hash, whatever the order in which the parameters were supplied. The key is the text
  \<open>str(sorted(params.items()))\<close>, which sorts the names and prints each value with its
  \<open>repr\<close>: for \<open>def g(**kw)\<close> the calls \<open>g(x=1, y=2)\<close> and \<open>g(y=2, x=1)\<close> bind \<open>kw\<close> to two
  equal dictionaries that print in the order of the call, and the keys differ.
\<close>

theorem equal_mappings_distinct_keys_counterexample:
  "bind g_kw ([], [(''x'', 1), (''y'', 2)]) = Inr [(''kw'', PDict [(''x'', 1), (''y'', 2)])] \<and>
   bind g_kw ([], [(''y'', 2), (''x'', 1)]) = Inr [(''kw'', PDict [(''y'', 2), (''x'', 1)])] \<and>
   same_items py_eq [(''kw'', PDict [(''x'', 1), (''y'', 2)])] [(''kw'', PDict [(''y'', 2), (''x'', 1)])] \<and>
   cache_key g_kw [(''kw'', PDict [(''x'', 1), (''y'', 2)])] = Inr ''g__[('kw', {'x': 1, 'y': 2})]'' \<and>
   cache_key g_kw [(''kw'', PDict [(''y'', 2), (''x'', 1)])] = Inr ''g__[('kw', {'y': 2, 'x': 1})]'' \<and>
   cache_key g_kw [(''kw'', PDict [(''x'', 1), (''y'', 2)])] \<noteq>
   cache_key g_kw [(''kw'', PDict [(''y'', 2), (''x'', 1)])]"
  by code_simp

text \<open>Likewise \<open>1 == True\<close>, and \<open>x(1)\<close> and \<open>x(True)\<close> derive different keys.\<close>

lemma equal_values_distinct_keys:
  "same_items py_eq [(''a'', PInt 1), (''b'', PInt 2)] [(''a'', PBool True), (''b'', PInt 2)] \<and>
   cache_key xv_mem [(''a'', PInt 1), (''b'', PInt 2)] = Inr ''<lambda>__[('a', 1), ('b', 2)]'' \<and>
   cache_key xv_mem [(''a'', PBool True), (''b'', PInt 2)] = Inr ''<lambda>__[('a', True), ('b', 2)]''"
  by code_simp

text \<open>
  C2, for mappings that print alike. Under the default hash, two calls whose bound
  mappings hold the same names and, under each name, values with the same \<open>repr\<close> (the
  same values, in particular) derive the same key, whatever the call syntax and the order
  of the entries of the mappings; \<open>info["last_hash"]\<close> shows it after either call.
\<close>

theorem key_order_independent:
  assumes "hash c = default_hash repr"
    and "bind c args1 = Inr p1" and "bind c args2 = Inr p2"
    and "distinct (map fst p1)" and "distinct (map fst p2)"
    and "set (printed_items repr p1) = set (printed_items repr p2)"
  shows "cache_key c p1 = cache_key c p2 \<and>
         info (snd (decorated c args1 s)) ''last_hash'' =
         info (snd (decorated c args2 t)) ''last_hash''"
proof -
  have h: "hash c p1 = hash c p2"
    using assms(1) default_hash_same_printed [OF assms(4-6)] by simp
  then have k: "cache_key c p1 = cache_key c p2"
    by (simp add: cache_key_def)
  obtain k1 where k1: "cache_key c p1 = Inr k1"
    using assms(1) by (simp add: cache_key_def default_hash_def)
  have "info (snd (decorated c args1 s)) ''last_hash'' = Some k1"
    using assms(2) k1
    by (auto simp: run_defs split: sum.splits option.splits prod.splits cache_obj.splits)
  moreover have "info (snd (decorated c args2 t)) ''last_hash'' = Some k1"
    using assms(3) k1 k
    by (auto simp: run_defs split: sum.splits option.splits prod.splits cache_obj.splits)
  ultimately show ?thesis using k by simp
qed

theorem key_order_independent_witness:
  "cache_key x_mapping [(''b'', 2), (''a'', 1)] = cache_key x_mapping [(''a'', 1), (''b'', 2)] \<and>
   info (snd (decorated x_mapping [(''b'', 2), (''a'', 1)] fresh)) ''last_hash'' =
   info (snd (decorated x_mapping [(''a'', 1), (''b'', 2)] fresh)) ''last_hash''"
proof -
  let ?p1 = "[(''b'', 2), (''a'', 1)] :: int params"
  let ?p2 = "[(''a'', 1), (''b'', 2)] :: int params"
  have h1: "hash x_mapping = default_hash repr_int"
    by (simp add: x_mapping_def cache_def cache_hash_def)
  have h2: "bind x_mapping ?p1 = Inr ?p1" by (simp add: x_mapping_def cache_def)
  have h3: "bind x_mapping ?p2 = Inr ?p2" by (simp add: x_mapping_def cache_def)
  have h4: "distinct (map fst ?p1)" by simp
  have h5: "distinct (map fst ?p2)" by simp
  have h6: "set (printed_items repr_int ?p1) = set (printed_items repr_int ?p2)"
    by (auto simp: printed_items_def)
  show ?thesis
    by (rule key_order_independent [OF h1 h2 h3 h4 h5 h6])
qed

subsection \<open>C3: a failing computation still closes the backend and stores nothing\<close>

text \<open>
  C3. On a miss whose wrapped function raises, the exception reaches the caller, the
  \<open>Shelf\<close> that was opened for the call is closed before the call returns (the trace
  grows by exactly one open followed by its close, and by nothing for the dictionary),
  and neither the dictionary nor any database has changed.
\<close>

theorem computation_raises_released:
  assumes "bind c args = Inr p" and "cache_key c p = Inr k" and "opens c"
    and "\<not> cache_contains (backend c) k s" and "orig_func c p = Inl e"
    and "decorated c args s = (r, s')"
  shows "r = Inl (Raised e) \<and>
         trace s' = trace s @
           (case db c of None \<Rightarrow> [] | Some path \<Rightarrow> [ShelveOpen path, ShelveClose path]) \<and>
         mem_cache s' = mem_cache s \<and> disk s' = disk s"
  using assms
  by (cases "db c") (auto simp: run_defs split: sum.splits option.splits if_splits)

theorem computation_raises_released_witness:
  "fst (decorated d_shelf ([1, 0], []) fresh) = Inl (Raised ZeroDivisionError) \<and>
   trace (snd (decorated d_shelf ([1, 0], []) (fresh :: (int, int) world))) =
     [ShelveOpen ''d.db'', ShelveClose ''d.db''] \<and>
   mem_cache (snd (decorated d_shelf ([1, 0], []) fresh)) = mem_cache (fresh :: (int, int) world) \<and>
   disk (snd (decorated d_shelf ([1, 0], []) fresh)) = disk (fresh :: (int, int) world)"
proof -
  let ?p = "[(''a'', 1), (''b'', 0)] :: int params"
  let ?k = "''d__[('a', 1), ('b', 0)]''"
  have h1: "bind d_shelf ([1, 0], []) = Inr ?p" by code_simp
  have h2: "cache_key d_shelf ?p = Inr ?k" by code_simp
  have h3: "opens d_shelf" by code_simp
  have h4: "\<not> cache_contains (backend d_shelf) ?k (fresh :: (int, int) world)" by code_simp
  have h5: "orig_func d_shelf ?p = Inl ZeroDivisionError" by code_simp
  have h6: "db d_shelf = Some ''d.db''" by code_simp
  have h7: "trace (fresh :: (int, int) world) = []" by code_simp
  show ?thesis
    using computation_raises_released [OF h1 h2 h3 h4 h5 prod.collapse [symmetric]]
    by (simp add: h6 h7)
qed

subsection \<open>C4: the caller gets what the backend reads back\<close>

text \<open>
  C4. The value of a successful call is \<open>_cache[hash_]\<close> read at the derived key after the
  hit-or-miss step, not the value the wrapped function returned: it is what the backend
  holds at that key when the call ends, and on a miss it is the read that follows the
  store of the computed value.
\<close>

theorem returns_reread:
  assumes "decorated c args s = (Inr r, s')"
  shows "\<exists>p k. bind c args = Inr p \<and> cache_key c p = Inr k \<and>
           cache_getitem c (backend c) k s' = Inr r \<and>
           (\<not> cache_contains (backend c) k s \<longrightarrow>
              (\<exists>v. orig_func c p = Inr v \<and>
                   fst (cache_setitem c (backend c) k v s) = Inr () \<and>
                   cache_getitem c (backend c) k (snd (cache_setitem c (backend c) k v s)) =
                     Inr r))"
proof -
  from decorated_success [OF assms] obtain p k where
    b: "bind c args = Inr p" and k: "cache_key c p = Inr k" and
    g: "cache_getitem c (backend c) k s' = Inr r"
    by blast
  have m: "\<exists>v. orig_func c p = Inr v \<and>
             fst (cache_setitem c (backend c) k v s) = Inr () \<and>
             cache_getitem c (backend c) k (snd (cache_setitem c (backend c) k v s)) = Inr r"
    if nc: "\<not> cache_contains (backend c) k s"
    using decorated_first_miss [OF assms b k nc] by blast
  from b k g m show ?thesis by blast
qed

theorem returns_reread_witness:
  "\<exists>p k. bind payload_shelf [] = Inr p \<and> cache_key payload_shelf p = Inr k \<and>
     cache_getitem payload_shelf (backend payload_shelf) k
       (snd (decorated payload_shelf [] fresh)) = Inr (7, 0) \<and>
     (\<not> cache_contains (backend payload_shelf) k (fresh :: (int \<times> int, int) world) \<longrightarrow>
        (\<exists>v. orig_func payload_shelf p = Inr v \<and>
           fst (cache_setitem payload_shelf (backend payload_shelf) k v
                 (fresh :: (int \<times> int, int) world)) = Inr () \<and>
           cache_getitem payload_shelf (backend payload_shelf) k
             (snd (cache_setitem payload_shelf (backend payload_shelf) k v
                    (fresh :: (int \<times> int, int) world))) = Inr (7, 0)))"
proof -
  have h1: "fst (decorated payload_shelf [] (fresh :: (int \<times> int, int) world)) = Inr (7, 0)"
    by code_simp
  have h2: "decorated payload_shelf [] (fresh :: (int \<times> int, int) world) =
            (Inr (7, 0), snd (decorated payload_shelf [] fresh))"
    using h1 by (cases "decorated payload_shelf [] (fresh :: (int \<times> int, int) world)") simp
  show ?thesis
    by (rule returns_reread [OF h2])
qed

text \<open>
  With a pickle that drops a field the two values differ: the function returns
  \<open>(7, 1)\<close> and the call returns \<open>(7, 0)\<close>.
\<close>

lemma reread_differs_from_computed:
  "orig_func payload_shelf [] = Inr (7, 1) \<and>
   fst (decorated payload_shelf [] (fresh :: (int \<times> int, int) world)) = Inr (7, 0)"
  by code_simp

subsection \<open>C5: the final read never misses\<close>

text \<open>
  C5. The read \<open>r = _cache[hash_]\<close> happens only after a hit-or-miss step that did not
  raise, and after such a step the key is in the backend (on a hit it was there, on a
  miss it has just been stored); so the \<open>KeyError\<close> of that read is never what a call
  raises.
\<close>

theorem missing_entry_unreachable:
  "fst (decorated c args s) \<noteq> Inl (KeyError k') \<and>
   (\<forall>obj k p t u t1. hit_or_miss c obj k p t = (Inr u, t1) \<longrightarrow>
      cache_contains obj k t1 \<and> cache_getitem c obj k t1 \<noteq> Inl (KeyError k'))"
proof (intro conjI allI impI)
  show "fst (decorated c args s) \<noteq> Inl (KeyError k')"
    by (rule decorated_no_KeyError)
next
  fix obj k p t u t1
  assume h: "hit_or_miss c obj k p t = (Inr u, t1)"
  show "cache_contains obj k t1"
    by (rule hit_or_miss_contains [OF h])
  then show "cache_getitem c obj k t1 \<noteq> Inl (KeyError k')"
    by (rule contains_getitem)
qed

theorem missing_entry_unreachable_witness:
  "fst (decorated x_mem ([1], []) fresh) \<noteq> Inl (KeyError key_1_2) \<and>
   cache_contains MemCache key_1_2
     (snd (hit_or_miss x_mem MemCache key_1_2 [(''a'', 1), (''b'', 2)] fresh)) \<and>
   cache_getitem x_mem MemCache key_1_2
     (snd (hit_or_miss x_mem MemCache key_1_2 [(''a'', 1), (''b'', 2)] fresh)) \<noteq>
     Inl (KeyError key_1_2)"
proof -
  let ?p = "[(''a'', 1), (''b'', 2)] :: int params"
  let ?h = "hit_or_miss x_mem MemCache key_1_2 ?p (fresh :: (int, int) world)"
  have h1: "fst ?h = Inr ()"
    by code_simp
  have h2: "?h = (Inr (), snd ?h)"
    using h1 by (cases ?h) simp
  note t = missing_entry_unreachable [of x_mem "([1], [])" fresh key_1_2]
  note a = conjunct1 [OF t]
  note b = conjunct2 [OF t, rule_format, OF h2]
  from a b show ?thesis by (rule conjI)
qed


subsection \<open>C6: what a call changes\<close>

text \<open>
  C6 says that every call moves exactly one of the two counters, by one, and writes
  \<open>last_hash\<close>. A call that leaves before line 56 does not: when \<open>shelve.open\<close> raises,
  \<open>last_hash\<close> is written and no counter moves; when the hash raises, no counter moves
  and \<open>last_hash\<close> is not written either.
\<close>

theorem stats_unchanged_counterexample:
  "\<not> counted_once (stats (fresh :: (int, int) world))
       (stats (snd (decorated x_noopen ([1], []) fresh))) \<and>
   info (snd (decorated x_noopen ([1], []) (fresh :: (int, int) world))) ''last_hash'' =
     Some key_1_2 \<and>
   \<not> counted_once (stats (fresh :: (int, int) world))
       (stats (snd (decorated x_badhash ([1], []) fresh))) \<and>
   info (snd (decorated x_badhash ([1], []) (fresh :: (int, int) world))) ''last_hash'' = None"
  by code_simp

text \<open>
  C6, call by call. On every call the two counters never decrease. A call that binds its
  arguments, derives its key and opens its backend moves exactly one of the two counters,
  by exactly one (\<open>cached\<close> on a hit, \<open>computed\<close> on a miss), and overwrites \<open>last_hash\<close>
  with the derived key, once; beyond that it leaves \<open>info\<close> alone, opens and closes the
  \<open>Shelf\<close> once, leaves the backend as it is on a hit and on a miss whose function raises,
  and otherwise stores the computed value at the derived key. A call on which
  \<open>shelve.open\<close> raises overwrites \<open>last_hash\<close> with the derived key and changes nothing
  else. A call on which the binding or the hash raises changes nothing at all.
\<close>

theorem counters_once_per_protocol_run:
  assumes "decorated c args s = (r, s')"
  shows "cached (stats s) \<le> cached (stats s') \<and> computed (stats s) \<le> computed (stats s') \<and>
         (\<forall>p k. bind c args = Inr p \<and> cache_key c p = Inr k \<and> opens c \<longrightarrow>
            counted_once (stats s) (stats s') \<and>
            info s' = (info s)(''last_hash'' \<mapsto> k) \<and>
            trace s' = trace s @
              (case db c of None \<Rightarrow> [] | Some path \<Rightarrow> [ShelveOpen path, ShelveClose path]) \<and>
            (\<forall>k'. k' \<noteq> k \<longrightarrow>
               mem_cache s' k' = mem_cache s k' \<and> (\<forall>path. disk s' path k' = disk s path k')) \<and>
            (cache_contains (backend c) k s \<longrightarrow>
               stats s' = (stats s)\<lparr>cached := cached (stats s) + 1\<rparr> \<and>
               mem_cache s' = mem_cache s \<and> disk s' = disk s) \<and>
            (\<not> cache_contains (backend c) k s \<longrightarrow>
               stats s' = (stats s)\<lparr>computed := computed (stats s) + 1\<rparr> \<and>
               (case orig_func c p of
                  Inl e \<Rightarrow> mem_cache s' = mem_cache s \<and> disk s' = disk s
                | Inr v \<Rightarrow>
                    mem_cache s' = mem_cache (snd (cache_setitem c (backend c) k v s)) \<and>
                    disk s' = disk (snd (cache_setitem c (backend c) k v s))))) \<and>
         (\<forall>p k. bind c args = Inr p \<and> cache_key c p = Inr k \<and> \<not> opens c \<longrightarrow>
            s' = s\<lparr>info := (info s)(''last_hash'' \<mapsto> k)\<rparr>) \<and>
         ((\<exists>e. bind c args = Inl e) \<or> (\<exists>p e. bind c args = Inr p \<and> cache_key c p = Inl e) \<longrightarrow>
            s' = s)"
proof -
  note m = decorated_stats_mono [OF assms]
  have reach: "\<forall>p k. bind c args = Inr p \<and> cache_key c p = Inr k \<and> opens c \<longrightarrow>
            counted_once (stats s) (stats s') \<and>
            info s' = (info s)(''last_hash'' \<mapsto> k) \<and>
            trace s' = trace s @
              (case db c of None \<Rightarrow> [] | Some path \<Rightarrow> [ShelveOpen path, ShelveClose path]) \<and>
            (\<forall>k'. k' \<noteq> k \<longrightarrow>
               mem_cache s' k' = mem_cache s k' \<and> (\<forall>path. disk s' path k' = disk s path k')) \<and>
            (cache_contains (backend c) k s \<longrightarrow>
               stats s' = (stats s)\<lparr>cached := cached (stats s) + 1\<rparr> \<and>
               mem_cache s' = mem_cache s \<and> disk s' = disk s) \<and>
            (\<not> cache_contains (backend c) k s \<longrightarrow>
               stats s' = (stats s)\<lparr>computed := computed (stats s) + 1\<rparr> \<and>
               (case orig_func c p of
                  Inl e \<Rightarrow> mem_cache s' = mem_cache s \<and> disk s' = disk s
                | Inr v \<Rightarrow>
                    mem_cache s' = mem_cache (snd (cache_setitem c (backend c) k v s)) \<and>
                    disk s' = disk (snd (cache_setitem c (backend c) k v s))))"
  proof (intro allI impI)
    fix p k
    assume a: "bind c args = Inr p \<and> cache_key c p = Inr k \<and> opens c"
    then have b: "bind c args = Inr p" and k: "cache_key c p = Inr k" and o: "opens c"
      by simp_all
    note r = decorated_reaches [OF b k o assms]
    note t = decorated_reaches_trace [OF b k o assms]
    have h: "cache_contains (backend c) k s \<longrightarrow>
               stats s' = (stats s)\<lparr>cached := cached (stats s) + 1\<rparr> \<and>
               mem_cache s' = mem_cache s \<and> disk s' = disk s"
      using decorated_reaches_hit [OF b k o assms] by blast
    have ms: "\<not> cache_contains (backend c) k s \<longrightarrow>
               stats s' = (stats s)\<lparr>computed := computed (stats s) + 1\<rparr> \<and>
               (case orig_func c p of
                  Inl e \<Rightarrow> mem_cache s' = mem_cache s \<and> disk s' = disk s
                | Inr v \<Rightarrow>
                    mem_cache s' = mem_cache (snd (cache_setitem c (backend c) k v s)) \<and>
                    disk s' = disk (snd (cache_setitem c (backend c) k v s)))"
      using decorated_reaches_miss [OF b k o assms] by blast
    from r t h ms show "counted_once (stats s) (stats s') \<and>
            info s' = (info s)(''last_hash'' \<mapsto> k) \<and>
            trace s' = trace s @
              (case db c of None \<Rightarrow> [] | Some path \<Rightarrow> [ShelveOpen path, ShelveClose path]) \<and>
            (\<forall>k'. k' \<noteq> k \<longrightarrow>
               mem_cache s' k' = mem_cache s k' \<and> (\<forall>path. disk s' path k' = disk s path k')) \<and>
            (cache_contains (backend c) k s \<longrightarrow>
               stats s' = (stats s)\<lparr>cached := cached (stats s) + 1\<rparr> \<and>
               mem_cache s' = mem_cache s \<and> disk s' = disk s) \<and>
            (\<not> cache_contains (backend c) k s \<longrightarrow>
               stats s' = (stats s)\<lparr>computed := computed (stats s) + 1\<rparr> \<and>
               (case orig_func c p of
                  Inl e \<Rightarrow> mem_cache s' = mem_cache s \<and> disk s' = disk s
                | Inr v \<Rightarrow>
                    mem_cache s' = mem_cache (snd (cache_setitem c (backend c) k v s)) \<and>
                    disk s' = disk (snd (cache_setitem c (backend c) k v s))))"
      by (intro conjI) (erule conjE | assumption)+
  qed
  have nopen: "\<forall>p k. bind c args = Inr p \<and> cache_key c p = Inr k \<and> \<not> opens c \<longrightarrow>
            s' = s\<lparr>info := (info s)(''last_hash'' \<mapsto> k)\<rparr>"
  proof (intro allI impI)
    fix p k
    assume a: "bind c args = Inr p \<and> cache_key c p = Inr k \<and> \<not> opens c"
    then obtain e where
      "decorated c args s = (Inl e, s\<lparr>info := (info s)(''last_hash'' \<mapsto> k)\<rparr>)"
      using decorated_open_fails [of c args p k s] by blast
    then show "s' = s\<lparr>info := (info s)(''last_hash'' \<mapsto> k)\<rparr>"
      using assms by simp
  qed
  have early: "(\<exists>e. bind c args = Inl e) \<or>
      (\<exists>p e. bind c args = Inr p \<and> cache_key c p = Inl e) \<longrightarrow> s' = s"
  proof
    assume a: "(\<exists>e. bind c args = Inl e) \<or> (\<exists>p e. bind c args = Inr p \<and> cache_key c p = Inl e)"
    show "s' = s"
      using decorated_raises_early [OF a, of s] assms by simp
  qed
  show ?thesis
    by (rule conjI [OF conjunct1 [OF m] conjI [OF conjunct2 [OF m]
          conjI [OF reach conjI [OF nopen early]]]])
qed

theorem counters_once_per_protocol_run_witness:
  "stats (snd (decorated x_mem ([1], []) (fresh :: (int, int) world))) =
     (stats (fresh :: (int, int) world))\<lparr>computed := computed (stats (fresh :: (int, int) world)) + 1\<rparr> \<and>
   info (snd (decorated x_mem ([1], []) (fresh :: (int, int) world))) =
     (info (fresh :: (int, int) world))(''last_hash'' \<mapsto> key_1_2) \<and>
   stats (snd (decorated x_mem ([1], []) (snd (decorated x_mem ([1], []) (fresh :: (int, int) world))))) =
     (stats (snd (decorated x_mem ([1], []) (fresh :: (int, int) world))))
       \<lparr>cached := cached (stats (snd (decorated x_mem ([1], []) (fresh :: (int, int) world)))) + 1\<rparr> \<and>
   snd (decorated x_noopen ([1], []) (fresh :: (int, int) world)) =
     fresh\<lparr>info := (info (fresh :: (int, int) world))(''last_hash'' \<mapsto> key_1_2)\<rparr> \<and>
   snd (decorated x_badhash ([1], []) (fresh :: (int, int) world)) = fresh \<and>
   snd (decorated x_mem ([], []) (fresh :: (int, int) world)) = fresh"
proof -
  let ?w = "fresh :: (int, int) world"
  let ?p = "[(''a'', 1), (''b'', 2)] :: int params"
  let ?s1 = "snd (decorated x_mem ([1], []) ?w)"
  have h1: "bind x_mem ([1], []) = Inr ?p" by code_simp
  have h2: "cache_key x_mem ?p = Inr key_1_2" by code_simp
  have h3: "opens x_mem" by code_simp
  have h4: "\<not> cache_contains (backend x_mem) key_1_2 ?w" by code_simp
  have h5: "cache_contains (backend x_mem) key_1_2 ?s1" by code_simp
  have n1: "bind x_noopen ([1], []) = Inr ?p" by code_simp
  have n2: "cache_key x_noopen ?p = Inr key_1_2" by code_simp
  have n3: "\<not> opens x_noopen" by code_simp
  have b1: "bind x_badhash ([1], []) = Inr ?p" by code_simp
  have b2: "cache_key x_badhash ?p = Inl (Raised TypeError)" by code_simp
  have e1: "bind x_mem ([], []) = Inl TypeError" by code_simp
  note miss = counters_once_per_protocol_run
    [of x_mem "([1], [])" ?w, OF prod.collapse [symmetric]]
  note hit = counters_once_per_protocol_run
    [of x_mem "([1], [])" ?s1, OF prod.collapse [symmetric]]
  note nopen = counters_once_per_protocol_run
    [of x_noopen "([1], [])" ?w, OF prod.collapse [symmetric]]
  note badhash = counters_once_per_protocol_run
    [of x_badhash "([1], [])" ?w, OF prod.collapse [symmetric]]
  note unbound = counters_once_per_protocol_run
    [of x_mem "([], [])" ?w, OF prod.collapse [symmetric]]
  note r1 = conjunct1 [OF conjunct2 [OF conjunct2 [OF miss]], rule_format,
      OF conjI [OF h1 conjI [OF h2 h3]]]
  note r2 = conjunct1 [OF conjunct2 [OF conjunct2 [OF hit]], rule_format,
      OF conjI [OF h1 conjI [OF h2 h3]]]
  note r3 = conjunct1 [OF conjunct2 [OF conjunct2 [OF conjunct2 [OF nopen]]], rule_format,
      OF conjI [OF n1 conjI [OF n2 n3]]]
  have b3: "(\<exists>e. bind x_badhash ([1], []) = Inl e) \<or>
      (\<exists>p e. bind x_badhash ([1], []) = Inr p \<and> cache_key x_badhash p = Inl e)"
    using b1 b2 by blast
  have e3: "(\<exists>e. bind x_mem ([], []) = Inl e) \<or>
      (\<exists>p e. bind x_mem ([], []) = Inr p \<and> cache_key x_mem p = Inl e)"
    using e1 by blast
  note r4 = conjunct2 [OF conjunct2 [OF conjunct2 [OF conjunct2 [OF badhash]]], rule_format, OF b3]
  note r5 = conjunct2 [OF conjunct2 [OF conjunct2 [OF conjunct2 [OF unbound]]], rule_format, OF e3]
  have a1: "stats ?s1 = (stats ?w)\<lparr>computed := computed (stats ?w) + 1\<rparr>"
    using r1 h4 by blast
  have a2: "info ?s1 = (info ?w)(''last_hash'' \<mapsto> key_1_2)"
    using r1 by blast
  have a3: "stats (snd (decorated x_mem ([1], []) ?s1)) = (stats ?s1)\<lparr>cached := cached (stats ?s1) + 1\<rparr>"
    using r2 h5 by blast
  from a1 a2 a3 r3 r4 r5 show ?thesis by (intro conjI)
qed

subsection \<open>C7: keys are prefixed by the function's name\<close>

text \<open>
  C7. The key is the name of the wrapped function, then \<open>__\<close>, then the hash of the
  parameters; so two wrapped functions with different names and the same hash function
  derive different keys from the same parameters.
\<close>

theorem namespacing:
  assumes "func_name c1 \<noteq> func_name c2" and "hash c1 = hash c2" and "hash c1 p = Inr h"
  shows "cache_key c1 p = Inr (func_name c1 @ ''__'' @ h) \<and>
         cache_key c2 p = Inr (func_name c2 @ ''__'' @ h) \<and>
         cache_key c1 p \<noteq> cache_key c2 p"
  using assms by (simp add: cache_key_def)

theorem namespacing_witness:
  "cache_key x_shelf [(''a'', 1), (''b'', 2)] = Inr ''<lambda>__[('a', 1), ('b', 2)]'' \<and>
   cache_key d_shelf [(''a'', 1), (''b'', 2)] = Inr ''d__[('a', 1), ('b', 2)]'' \<and>
   cache_key x_shelf [(''a'', 1), (''b'', 2)] \<noteq> cache_key d_shelf [(''a'', 1), (''b'', 2)]"
proof -
  let ?p = "[(''a'', 1), (''b'', 2)] :: int params"
  have h1: "func_name x_shelf \<noteq> func_name d_shelf" by code_simp
  have h2: "hash x_shelf = hash d_shelf"
    by (simp add: x_shelf_def d_shelf_def cache_def)
  have h3: "hash x_shelf ?p = Inr ''[('a', 1), ('b', 2)]''" by code_simp
  have n1: "func_name x_shelf = ''<lambda>''" by code_simp
  have n2: "func_name d_shelf = ''d''" by code_simp
  show ?thesis
    using namespacing [OF h1 h2 h3] by (simp add: n1 n2)
qed

subsection \<open>C8: a hash that raises changes nothing\<close>

text \<open>
  C8. When the configured hash raises on the bound parameters, the exception reaches the
  caller and the state is what it was: \<open>stats\<close> and \<open>info\<close> unchanged, no backend opened,
  no entry written.
\<close>

theorem hash_raises_no_mutation:
  assumes "bind c args = Inr p" and "hash c p = Inl e"
  shows "decorated c args s = (Inl (Raised e), s)"
  using assms by (simp add: decorated_def cache_key_def)

theorem hash_raises_no_mutation_witness:
  "decorated x_badhash ([1], []) (fresh :: (int, int) world) = (Inl (Raised TypeError), fresh)"
proof -
  let ?p = "[(''a'', 1), (''b'', 2)] :: int params"
  have h1: "bind x_badhash ([1], []) = Inr ?p" by code_simp
  have h2: "hash x_badhash ?p = Inl TypeError" by code_simp
  show ?thesis
    by (rule hash_raises_no_mutation [OF h1 h2])
qed

subsection \<open>C9: \<open>hash=None\<close> keeps one entry\<close>

text \<open>
  C9 has every call after the first return the first computed result. They return what
  the first call returned, which line 62 read back from the backend: wrapped with
  \<open>hash=None\<close> on a \<open>Shelf\<close> whose pickle drops a field, the function computes \<open>(7, 1)\<close>
  and every call returns \<open>(7, 0)\<close>.
\<close>

theorem degenerate_hash_counterexample:
  "orig_func payload_shelf [] = Inr (7, 1) \<and>
   cache_key payload_shelf [] = Inr ''payload__'' \<and>
   cache_key payload_shelf [(''n'', (3, 4))] = Inr ''payload__'' \<and>
   \<not> cache_contains (backend payload_shelf) ''payload__'' (fresh :: (int \<times> int, int) world) \<and>
   fst (calls payload_shelf [[(''n'', (3, 4))], []]
     (snd (decorated payload_shelf [] (fresh :: (int \<times> int, int) world)))) =
     [Inr (7, 0), Inr (7, 0)] \<and>
   hd (fst (calls payload_shelf [[(''n'', (3, 4))], []]
     (snd (decorated payload_shelf [] (fresh :: (int \<times> int, int) world))))) \<noteq> Inr (7, 1)"
  by code_simp

text \<open>
  C9, with the value read back. With \<open>hash=None\<close> every call derives the key \<open>name__\<close>,
  whatever its arguments. Once a first call has returned a value, every later call that
  binds its arguments is a hit that returns that value: \<open>cached\<close> goes up by one per call,
  \<open>computed\<close> stays, and the backend is not written again. When the key was new at the
  first call, that value is what the backend reads back after storing what the wrapped
  function computed then (the computed value itself for the dictionary and for a faithful
  pickle), and the first call added that one key to the backend.
\<close>

theorem degenerate_hash_single_entry:
  assumes "hash c = cache_hash None"
    and "decorated c a0 s = (Inr v, s1)"
    and "\<forall>a \<in> set as. \<exists>p. bind c a = Inr p"
    and "calls c as s1 = (rs, s2)"
  shows "(\<forall>p. cache_key c p = Inr (func_name c @ ''__'')) \<and>
         rs = replicate (length as) (Inr v) \<and>
         cached (stats s2) = cached (stats s1) + int (length as) \<and>
         computed (stats s2) = computed (stats s1) \<and>
         mem_cache s2 = mem_cache s1 \<and> disk s2 = disk s1 \<and>
         (\<not> cache_contains (backend c) (func_name c @ ''__'') s \<longrightarrow>
            (\<exists>p0 v0. bind c a0 = Inr p0 \<and> orig_func c p0 = Inr v0 \<and>
               cache_getitem c (backend c) (func_name c @ ''__'')
                 (snd (cache_setitem c (backend c) (func_name c @ ''__'') v0 s)) = Inr v \<and>
               (stores c v0 \<longrightarrow> v = v0) \<and>
               cache_keys (backend c) s1 = insert (func_name c @ ''__'') (cache_keys (backend c) s)))"
proof -
  let ?k = "func_name c @ ''__''"
  have key: "\<forall>p. cache_key c p = Inr ?k"
    using assms(1) by (simp add: cache_key_def cache_hash_def)
  from decorated_success [OF assms(2)] obtain p0 k0 where
    b: "bind c a0 = Inr p0" and k0: "cache_key c p0 = Inr k0" and o: "opens c" and
    g0: "cache_getitem c (backend c) k0 s1 = Inr v"
    by blast
  have k0': "k0 = ?k" using key k0 by simp
  have g: "cache_getitem c (backend c) ?k s1 = Inr v"
    using g0 k0' by simp
  note h = calls_all_hits [OF key o assms(3) g]
  have first: "\<exists>p0 v0. bind c a0 = Inr p0 \<and> orig_func c p0 = Inr v0 \<and>
      cache_getitem c (backend c) ?k (snd (cache_setitem c (backend c) ?k v0 s)) = Inr v \<and>
      (stores c v0 \<longrightarrow> v = v0) \<and>
      cache_keys (backend c) s1 = insert ?k (cache_keys (backend c) s)"
    if nc: "\<not> cache_contains (backend c) ?k s"
  proof -
    have kp: "cache_key c p0 = Inr ?k" using key by simp
    from decorated_first_miss [OF assms(2) b kp nc] b show ?thesis by blast
  qed
  show ?thesis
    using key h first by (simp add: assms(4))
qed

theorem degenerate_hash_single_entry_witness:
  "(\<forall>p. cache_key x_const p = Inr ''<lambda>__'') \<and>
   fst (calls x_const [([5], []), ([3], [(''b'', 4)])] (snd (decorated x_const ([1], []) fresh))) =
     [Inr 2, Inr 2] \<and>
   cached (stats (snd (calls x_const [([5], []), ([3], [(''b'', 4)])]
       (snd (decorated x_const ([1], []) (fresh :: (int, int) world)))))) = 2 \<and>
   computed (stats (snd (calls x_const [([5], []), ([3], [(''b'', 4)])]
       (snd (decorated x_const ([1], []) (fresh :: (int, int) world)))))) = 1 \<and>
   cache_keys (backend x_const) (snd (decorated x_const ([1], []) (fresh :: (int, int) world))) =
     {''<lambda>__''}"
proof -
  let ?as = "[([5], []), ([3], [(''b'', 4)])] :: call list"
  let ?s1 = "snd (decorated x_const ([1], []) (fresh :: (int, int) world))"
  have h1: "hash x_const = cache_hash None"
    by (simp add: x_const_def cache_def)
  have r: "fst (decorated x_const ([1], []) (fresh :: (int, int) world)) = Inr 2"
    by code_simp
  have h2: "decorated x_const ([1], []) (fresh :: (int, int) world) = (Inr 2, ?s1)"
    using r by (cases "decorated x_const ([1], []) (fresh :: (int, int) world)") simp
  have b1: "bind x_const ([5], []) = Inr [(''a'', 5), (''b'', 2)]" by code_simp
  have b2: "bind x_const ([3], [(''b'', 4)]) = Inr [(''a'', 3), (''b'', 4)]" by code_simp
  have h3: "\<forall>a \<in> set ?as. \<exists>p. bind x_const a = Inr p"
    using b1 b2 by simp
  have n: "func_name x_const = ''<lambda>''" by code_simp
  have nc: "\<not> cache_contains (backend x_const) ''<lambda>__'' (fresh :: (int, int) world)"
    by code_simp
  have e: "cache_keys (backend x_const) (fresh :: (int, int) world) = {}"
    by (simp add: backend_def x_const_def cache_def fresh_def init_world_def)
  have c1: "cached (stats ?s1) = 0" by code_simp
  have c2: "computed (stats ?s1) = 1" by code_simp
  note t = degenerate_hash_single_entry [OF h1 h2 h3 prod.collapse [symmetric]]
  have keys: "cache_keys (backend x_const) ?s1 = {''<lambda>__''}"
    using conjunct2 [OF conjunct2 [OF conjunct2 [OF conjunct2 [OF conjunct2 [OF conjunct2 [OF t]]]]]]
      nc
    by (auto simp: n e)
  show ?thesis
    using t keys by (simp add: n c1 c2)
qed

subsection \<open>C10: a failing computation is counted as computed\<close>

text \<open>
  C10. On a miss whose wrapped function raises, \<open>computed\<close> has gone up by one and
  \<open>last_hash\<close> holds the derived key when the exception reaches the caller; \<open>cached\<close> is
  unchanged.
\<close>

theorem failed_computation_counted:
  assumes "bind c args = Inr p" and "cache_key c p = Inr k" and "opens c"
    and "\<not> cache_contains (backend c) k s" and "orig_func c p = Inl e"
    and "decorated c args s = (r, s')"
  shows "r = Inl (Raised e) \<and> computed (stats s') = computed (stats s) + 1 \<and>
         cached (stats s') = cached (stats s) \<and> info s' ''last_hash'' = Some k"
  using assms
  by (cases "db c") (auto simp: run_defs split: sum.splits option.splits if_splits)

theorem failed_computation_counted_witness:
  "fst (decorated d_shelf ([], [(''b'', 0), (''a'', 5)]) fresh) = Inl (Raised ZeroDivisionError) \<and>
   computed (stats (snd (decorated d_shelf ([], [(''b'', 0), (''a'', 5)])
      (fresh :: (int, int) world)))) = 1 \<and>
   cached (stats (snd (decorated d_shelf ([], [(''b'', 0), (''a'', 5)])
      (fresh :: (int, int) world)))) = 0 \<and>
   info (snd (decorated d_shelf ([], [(''b'', 0), (''a'', 5)]) (fresh :: (int, int) world)))
      ''last_hash'' = Some ''d__[('a', 5), ('b', 0)]''"
proof -
  let ?p = "[(''a'', 5), (''b'', 0)] :: int params"
  let ?k = "''d__[('a', 5), ('b', 0)]''"
  have h1: "bind d_shelf ([], [(''b'', 0), (''a'', 5)]) = Inr ?p" by code_simp
  have h2: "cache_key d_shelf ?p = Inr ?k" by code_simp
  have h3: "opens d_shelf" by code_simp
  have h4: "\<not> cache_contains (backend d_shelf) ?k (fresh :: (int, int) world)" by code_simp
  have h5: "orig_func d_shelf ?p = Inl ZeroDivisionError" by code_simp
  have h6: "stats (fresh :: (int, int) world) = \<lparr>cached = 0, computed = 0\<rparr>" by code_simp
  show ?thesis
    using failed_computation_counted [OF h1 h2 h3 h4 h5 prod.collapse [symmetric]]
    by (simp add: h6)
qed


end
